theory Spec2Isabelle
  imports Main "HOL-Library.Sublist" "HOL-Library.Word"
begin

section \<open>Data model\<close>

text \<open>
  Go strings are byte sequences: \<open>string\<close> (a list of 8-bit \<open>char\<close>s). A Go
  \<open>error\<close> is represented by the text its \<open>Error()\<close> method returns, the only thing
  the program does with one.
\<close>

type_synonym error = string

subsection \<open>The parsed source feed (package gofeed)\<close>

text \<open>
  Only the fields that \<open>writeFilteredRSS\<close> reads are kept. \<open>Item.Author\<close>,
  \<open>Feed.Author\<close> and \<open>Item.PublishedParsed\<close> are pointers in Go and may be nil:
  they are options here. The type \<open>'t\<close> stands for \<open>time.Time\<close>.
\<close>

record gofeed_Person =
  gfPerson_Name :: string
  gfPerson_Email :: string

record 't gofeed_Item =
  gfItem_Title :: string
  gfItem_Link :: string
  gfItem_Description :: string
  gfItem_Author :: "gofeed_Person option"
  gfItem_PublishedParsed :: "'t option"

record 't gofeed_Feed =
  gfFeed_Title :: string
  gfFeed_Link :: string
  gfFeed_Description :: string
  gfFeed_Author :: "gofeed_Person option"
  gfFeed_Items :: "'t gofeed_Item list"

subsection \<open>The output feed (package gorilla/feeds)\<close>

text \<open>
  The fields that the program sets; every other field of \<open>feeds.Feed\<close> and
  \<open>feeds.Item\<close> keeps its zero value.
\<close>

record feeds_Link =
  fdLink_Href :: string

record feeds_Author =
  fdAuthor_Name :: string
  fdAuthor_Email :: string

record 't feeds_Item =
  fdItem_Title :: string
  fdItem_Link :: "feeds_Link option"
  fdItem_Description :: string
  fdItem_Author :: "feeds_Author option"
  fdItem_Created :: 't

record 't feeds_Feed =
  fdFeed_Title :: string
  fdFeed_Link :: "feeds_Link option"
  fdFeed_Description :: string
  fdFeed_Author :: "feeds_Author option"
  fdFeed_Created :: 't
  fdFeed_Items :: "'t feeds_Item list"

subsection \<open>Panics\<close>

text \<open>
  A Go run-time panic ends the function that raised it and every caller up to the
  HTTP server. The only panic this program can raise itself is the dereference of a
  nil pointer.
\<close>

datatype panic = NilPointerDereference

section \<open>Filtering and transforming (writeFilteredRSS, lines 92 to 112)\<close>

text \<open>
  The composite literal of lines 104 to 110. Its field expressions are evaluated in
  order: \<open>item.Author.Name\<close> dereferences \<open>item.Author\<close>, then
  \<open>*item.PublishedParsed\<close> dereferences the parsed date.
\<close>

definition newItem :: "'t gofeed_Item \<Rightarrow> panic + 't feeds_Item" where
  "newItem item =
     (case gfItem_Author item of
        None \<Rightarrow> Inl NilPointerDereference
      | Some author \<Rightarrow>
          (case gfItem_PublishedParsed item of
             None \<Rightarrow> Inl NilPointerDereference
           | Some published \<Rightarrow>
               Inr \<lparr> fdItem_Title = gfItem_Title item,
                     fdItem_Link = Some \<lparr> fdLink_Href = gfItem_Link item \<rparr>,
                     fdItem_Description = gfItem_Description item,
                     fdItem_Author = Some \<lparr> fdAuthor_Name = gfPerson_Name author,
                                            fdAuthor_Email = gfPerson_Email author \<rparr>,
                     fdItem_Created = published \<rparr>))"

text \<open>
  The loop of lines 101 to 112; \<open>acc\<close> is \<open>filteredFeed.Items\<close> so far.
\<close>

fun filterLoop ::
  "(string \<Rightarrow> bool) \<Rightarrow> 't gofeed_Item list \<Rightarrow> 't feeds_Item list \<Rightarrow> panic + 't feeds_Item list"
where
  "filterLoop keepItem [] acc = Inr acc"
| "filterLoop keepItem (item # rest) acc =
     (if keepItem (gfItem_Title item)
      then (case newItem item of
              Inl p \<Rightarrow> Inl p
            | Inr new \<Rightarrow> filterLoop keepItem rest (acc @ [new]))
      else filterLoop keepItem rest acc)"

text \<open>
  Lines 92 to 112: the output feed built from the parsed feed. \<open>now\<close> is the
  value of \<open>time.Now()\<close>.
\<close>

definition filteredFeed ::
  "'t \<Rightarrow> (string \<Rightarrow> bool) \<Rightarrow> 't gofeed_Feed \<Rightarrow> panic + 't feeds_Feed" where
  "filteredFeed now keepItem originalFeed =
     (case filterLoop keepItem (gfFeed_Items originalFeed) [] of
        Inl p \<Rightarrow> Inl p
      | Inr items \<Rightarrow>
          Inr \<lparr> fdFeed_Title = gfFeed_Title originalFeed,
                fdFeed_Link = Some \<lparr> fdLink_Href = gfFeed_Link originalFeed \<rparr>,
                fdFeed_Description = gfFeed_Description originalFeed,
                fdFeed_Author =
                  (case gfFeed_Author originalFeed of
                     None \<Rightarrow> None
                   | Some a \<Rightarrow> Some \<lparr> fdAuthor_Name = gfPerson_Name a,
                                       fdAuthor_Email = gfPerson_Email a \<rparr>),
                fdFeed_Created = now,
                fdFeed_Items = items \<rparr>)"

section \<open>The skip-word predicate (indexHandler, lines 61 to 68)\<close>

subsection \<open>strings.Fields\<close>

text \<open>
  \<open>strings.Fields\<close> splits a string around each run of white space characters, as
  \<open>unicode.IsSpace\<close> defines them, and returns the non-empty pieces. The white space
  characters are the code points U+0009 to U+000D, U+0020, U+0085, U+00A0, U+1680,
  U+2000 to U+200A, U+2028, U+2029, U+202F, U+205F and U+3000; here they are listed by
  their UTF-8 encodings, since a Go string holds bytes.
\<close>

definition whiteSpace :: "string list" where
  "whiteSpace =
     [[CHR 0x09], [CHR 0x0A], [CHR 0x0B], [CHR 0x0C], [CHR 0x0D], [CHR 0x20],
      [CHR 0xC2, CHR 0x85], [CHR 0xC2, CHR 0xA0],
      [CHR 0xE1, CHR 0x9A, CHR 0x80],
      [CHR 0xE2, CHR 0x80, CHR 0x80], [CHR 0xE2, CHR 0x80, CHR 0x81],
      [CHR 0xE2, CHR 0x80, CHR 0x82], [CHR 0xE2, CHR 0x80, CHR 0x83],
      [CHR 0xE2, CHR 0x80, CHR 0x84], [CHR 0xE2, CHR 0x80, CHR 0x85],
      [CHR 0xE2, CHR 0x80, CHR 0x86], [CHR 0xE2, CHR 0x80, CHR 0x87],
      [CHR 0xE2, CHR 0x80, CHR 0x88], [CHR 0xE2, CHR 0x80, CHR 0x89],
      [CHR 0xE2, CHR 0x80, CHR 0x8A],
      [CHR 0xE2, CHR 0x80, CHR 0xA8], [CHR 0xE2, CHR 0x80, CHR 0xA9],
      [CHR 0xE2, CHR 0x80, CHR 0xAF], [CHR 0xE2, CHR 0x81, CHR 0x9F],
      [CHR 0xE3, CHR 0x80, CHR 0x80]]"

text \<open>
  The number of bytes of the white space character that the string starts with, and 0
  when it starts with none. A byte that starts no white space character (also a byte of
  an invalid encoding, which Go decodes as U+FFFD) belongs to a field.
\<close>

definition spaceWidth :: "string \<Rightarrow> nat" where
  "spaceWidth s =
     (case filter (\<lambda>sp. prefix sp s) whiteSpace of [] \<Rightarrow> 0 | sp # _ \<Rightarrow> length sp)"

text \<open>The scan of \<open>strings.Fields\<close>; \<open>field\<close> is the field read so far.\<close>

function fieldsFrom :: "string \<Rightarrow> string \<Rightarrow> string list" where
  "fieldsFrom field [] = (if field = [] then [] else [field])"
| "fieldsFrom field (c # s) =
     (if spaceWidth (c # s) = 0 then fieldsFrom (field @ [c]) s
      else (if field = [] then [] else [field])
             @ fieldsFrom [] (drop (spaceWidth (c # s)) (c # s)))"
  by pat_completeness auto
termination
  by (relation "measure (\<lambda>(field, s). length s)") auto

definition Fields :: "string \<Rightarrow> string list" where
  "Fields s = fieldsFrom [] s"

subsection \<open>The closure of lines 61 to 68\<close>

text \<open>
  The loop over the fields of the title; \<open>slices.Contains(skips, word)\<close> is
  \<open>word \<in> set skips\<close>.
\<close>

fun skipLoop :: "string list \<Rightarrow> string list \<Rightarrow> bool" where
  "skipLoop skips [] = True"
| "skipLoop skips (word # rest) =
     (if word \<in> set skips then False else skipLoop skips rest)"

definition keepItem_skip :: "string list \<Rightarrow> string \<Rightarrow> bool" where
  "keepItem_skip skips contents = skipLoop skips (Fields contents)"

section \<open>Regular expressions (package regexp)\<close>

text \<open>
  A compiled regular expression is represented by what it matches: \<open>re s i j\<close> holds
  when the pattern matches the bytes \<open>i\<close> up to \<open>j\<close> (exclusive) of the text \<open>s\<close>. The
  whole text is an argument because anchors and word boundaries look at the context of
  a match. \<open>regexp.Compile\<close>, the parser of the pattern syntax, is a parameter of the
  handler (see \<open>env\<close> below).
\<close>

type_synonym Regexp = "string \<Rightarrow> nat \<Rightarrow> nat \<Rightarrow> bool"

text \<open>
  \<open>MatchString\<close> reports whether the string contains any match of the regular
  expression.
\<close>

definition MatchString :: "Regexp \<Rightarrow> string \<Rightarrow> bool" where
  "MatchString re s =
     list_ex (\<lambda>i. list_ex (\<lambda>j. re s i j) [i..<Suc (length s)]) [0..<Suc (length s)]"

section \<open>HTTP (package net/http)\<close>

subsection \<open>Query parameters\<close>

text \<open>
  \<open>url.Values\<close> is a map from a key to the list of its values, here an association
  list. \<open>len(query)\<close> counts the keys.
\<close>

type_synonym url_Values = "(string \<times> string list) list"

definition Values_len :: "url_Values \<Rightarrow> nat" where
  "Values_len v = length (remdups (map fst v))"

definition Values_Has :: "url_Values \<Rightarrow> string \<Rightarrow> bool" where
  "Values_Has v key = (map_of v key \<noteq> None)"

definition Values_Get :: "url_Values \<Rightarrow> string \<Rightarrow> string" where
  "Values_Get v key =
     (case map_of v key of None \<Rightarrow> [] | Some [] \<Rightarrow> [] | Some (x # _) \<Rightarrow> x)"

subsection \<open>The response\<close>

text \<open>
  An \<open>http.ResponseWriter\<close>: the header map, the status code once it has been written,
  the header as it was sent with the status, and the body written so far. The first
  \<open>Write\<close> sends status 200 if no status has been sent; a \<open>WriteHeader\<close> after the
  status has been sent changes nothing.
\<close>

record ResponseWriter =
  Header :: "string \<rightharpoonup> string"
  status :: "nat option"
  sentHeader :: "string \<rightharpoonup> string"
  body :: string

definition WriteHeader :: "nat \<Rightarrow> ResponseWriter \<Rightarrow> ResponseWriter" where
  "WriteHeader code w =
     (if status w = None then w\<lparr> status := Some code, sentHeader := Header w \<rparr> else w)"

definition Write :: "string \<Rightarrow> ResponseWriter \<Rightarrow> ResponseWriter" where
  "Write bytes w = (let w' = WriteHeader 200 w in w'\<lparr> body := body w' @ bytes \<rparr>)"

definition StatusBadRequest :: nat where
  "StatusBadRequest = 400"

definition StatusInternalServerError :: nat where
  "StatusInternalServerError = 500"

text \<open>
  \<open>http.Error\<close> sets the content type to plain text, writes the status and then the
  message followed by a newline.
\<close>

definition http_Error :: "ResponseWriter \<Rightarrow> string \<Rightarrow> nat \<Rightarrow> ResponseWriter" where
  "http_Error w err code =
     Write (err @ [CHR 0x0A])
       (WriteHeader code
          (w\<lparr> Header := (Header w)(''Content-Length'' := None,
                                      ''Content-Type'' \<mapsto> ''text/plain; charset=utf-8'',
                                      ''X-Content-Type-Options'' \<mapsto> ''nosniff'') \<rparr>))"

definition newResponse :: ResponseWriter where
  "newResponse = \<lparr> Header = Map.empty, status = None, sentHeader = Map.empty, body = [] \<rparr>"

subsection \<open>One request\<close>

text \<open>
  What serving one request has done so far: the response, and the feed URLs fetched
  from the network, in order.
\<close>

record exchange =
  resp :: ResponseWriter
  fetched :: "string list"

definition newExchange :: exchange where
  "newExchange = \<lparr> resp = newResponse, fetched = [] \<rparr>"

text \<open>
  A function either returns, or panics in the state it had reached.
\<close>

datatype ('r, 's) outcome = Returned 'r | Panicked panic 's

text \<open>
  What the handler takes from its environment: the embedded page, the regular
  expression parser, the feed parser (a network fetch plus the parse; \<open>Inl\<close> is its
  error), the clock, and the RSS serialiser, which gives the bytes it wrote to the
  writer and its error if it failed. The serialiser always calls \<open>Write\<close>, first for
  the XML header.
\<close>

record 't env =
  indexHTML :: string
  regexp_Compile :: "string \<Rightarrow> error + Regexp"
  ParseURL :: "string \<Rightarrow> error + 't gofeed_Feed"
  time_Now :: 't
  WriteRss :: "'t feeds_Feed \<Rightarrow> string \<times> error option"

section \<open>writeFilteredRSS (lines 86 to 115)\<close>

definition writeFilteredRSS ::
  "'t env \<Rightarrow> exchange \<Rightarrow> (string \<Rightarrow> bool) \<Rightarrow> string \<Rightarrow> (exchange \<times> error option, exchange) outcome"
where
  "writeFilteredRSS env x keepItem rssURL =
     (let x1 = x\<lparr> fetched := fetched x @ [rssURL] \<rparr> in
      case ParseURL env rssURL of
        Inl err \<Rightarrow> Returned (x1, Some err)
      | Inr originalFeed \<Rightarrow>
          (case filteredFeed (time_Now env) keepItem originalFeed of
             Inl p \<Rightarrow> Panicked p x1
           | Inr feed \<Rightarrow>
               (case WriteRss env feed of
                  (bytes, err) \<Rightarrow> Returned (x1\<lparr> resp := Write bytes (resp x1) \<rparr>, err))))"

section \<open>indexHandler (lines 44 to 84)\<close>

text \<open>
  The two messages of lines 70 and 75, \<open>missing 'skip' or 're'\<close> and
  \<open>missing 'url'\<close>; \<open>CHR 0x27\<close> is the single quote.
\<close>

definition missing_filter :: string where
  "missing_filter = ''missing '' @ [CHR 0x27] @ ''skip'' @ [CHR 0x27] @ '' or ''
                      @ [CHR 0x27] @ ''re'' @ [CHR 0x27]"

definition missing_url :: string where
  "missing_url = ''missing '' @ [CHR 0x27] @ ''url'' @ [CHR 0x27]"

text \<open>
  Lines 51 to 72: the choice of the predicate. \<open>Inl\<close> is the message of the
  \<open>http.Error\<close> call with \<open>StatusBadRequest\<close> that ends the request.
\<close>

definition keepItem_of :: "'t env \<Rightarrow> url_Values \<Rightarrow> string + (string \<Rightarrow> bool)" where
  "keepItem_of env query =
     (if Values_Has query ''re''
      then (case regexp_Compile env (Values_Get query ''re'') of
              Inl err \<Rightarrow> Inl err
            | Inr regex \<Rightarrow> Inr (MatchString regex))
      else (case map_of query ''skip'' of
              Some skips \<Rightarrow> Inr (keepItem_skip skips)
            | None \<Rightarrow> Inl missing_filter))"

definition indexHandler :: "'t env \<Rightarrow> url_Values \<Rightarrow> exchange \<Rightarrow> (exchange, exchange) outcome" where
  "indexHandler env query x =
     (if Values_len query = 0 then Returned (x\<lparr> resp := Write (indexHTML env) (resp x) \<rparr>)
      else
        (case keepItem_of env query of
           Inl msg \<Rightarrow> Returned (x\<lparr> resp := http_Error (resp x) msg StatusBadRequest \<rparr>)
         | Inr keepItem \<Rightarrow>
             if \<not> Values_Has query ''url''
             then Returned (x\<lparr> resp := http_Error (resp x) missing_url StatusBadRequest \<rparr>)
             else
               (case writeFilteredRSS env x keepItem (Values_Get query ''url'') of
                  Panicked p x' \<Rightarrow> Panicked p x'
                | Returned (x', None) \<Rightarrow> Returned x'
                | Returned (x', Some err) \<Rightarrow>
                    Returned (x'\<lparr> resp := http_Error (resp x') err
                                               StatusInternalServerError \<rparr>))))"

section \<open>statusHandler (lines 117 to 142)\<close>

text \<open>
  Floating point numbers are not modelled: \<open>'f\<close> stands for \<open>float64\<close>, and the two
  verbs \<open>%.2f\<close> and \<open>%.0f\<close> of the pattern and the constant \<open>0.0\<close> are parameters.
\<close>

record 'f floats =
  float_zero :: 'f
  verb_2f :: "'f \<Rightarrow> string"
  verb_0f :: "'f \<Rightarrow> string"

text \<open>
  What the handler reads: the result of \<open>cpu.Percent\<close>, \<open>MemStats.Alloc\<close>, the
  result of \<open>mem.VirtualMemory\<close> (a pointer, nil when the call fails; the handler
  discards the error) and the number of goroutines. The byte counts are \<open>uint64\<close>.
\<close>

record 'f VirtualMemoryStat =
  vm_Total :: "64 word"
  vm_Used :: "64 word"
  vm_UsedPercent :: 'f

record 'f readings =
  cpu_Percent :: "'f list"
  MemStats_Alloc :: "64 word"
  mem_VirtualMemory :: "'f VirtualMemoryStat option"
  NumGoroutine :: int

text \<open>The verb \<open>%d\<close>: decimal digits, with a sign for a negative \<open>int\<close>.\<close>

fun decimal :: "nat \<Rightarrow> string" where
  "decimal n =
     (if n < 10 then [''0123456789'' ! n]
      else decimal (n div 10) @ [''0123456789'' ! (n mod 10)])"

declare decimal.simps [simp del]

definition verb_d :: "int \<Rightarrow> string" where
  "verb_d i = (if i < 0 then ''-'' @ decimal (nat (- i)) else decimal (nat i))"

text \<open>
  \<open>fmt.Sprintf(statusPattern, ...)\<close> on the six formatted arguments. The pattern is
  the literal of lines 117 to 121 without the newlines around it; \<open>%%\<close> prints a
  percent sign.
\<close>

definition Sprintf_statusPattern ::
  "string \<Rightarrow> string \<Rightarrow> string \<Rightarrow> string \<Rightarrow> string \<Rightarrow> string \<Rightarrow> string" where
  "Sprintf_statusPattern cpu goAlloc hostUsed hostTotal percent gos =
     ''CPU used:'' @ [CHR 0x09] @ cpu @ ''%'' @ [CHR 0x0A]
     @ ''RAM used:'' @ [CHR 0x09] @ goAlloc @ '' / '' @ hostUsed @ '' / '' @ hostTotal
     @ '' MB ('' @ percent @ ''%)'' @ [CHR 0x0A]
     @ ''Goroutines:'' @ [CHR 0x09] @ gos"

definition statusHandler ::
  "'f floats \<Rightarrow> 'f readings \<Rightarrow> ResponseWriter \<Rightarrow> (ResponseWriter, ResponseWriter) outcome" where
  "statusHandler fl r w =
     (let cpuUsage = (case cpu_Percent r of [] \<Rightarrow> float_zero fl | u # _ \<Rightarrow> u) in
      case mem_VirtualMemory r of
        None \<Rightarrow> Panicked NilPointerDereference w
      | Some sysMem \<Rightarrow>
          Returned (Write
            (Sprintf_statusPattern
               (verb_2f fl cpuUsage)
               (decimal (unat (MemStats_Alloc r div 1024 div 1024)))
               (decimal (unat (vm_Used sysMem div 1024 div 1024 div 1024)))
               (decimal (unat (vm_Total sysMem div 1024 div 1024 div 1024)))
               (verb_0f fl (vm_UsedPercent sysMem))
               (verb_d (NumGoroutine r)))
            w))"

section \<open>Notions of the specification\<close>

text \<open>
  The items of a list whose title satisfies the predicate, in their original order:
  what the specification says the output feed holds.
\<close>

definition kept :: "(string \<Rightarrow> bool) \<Rightarrow> 't gofeed_Item list \<Rightarrow> 't gofeed_Item list" where
  "kept keepItem items = filter (\<lambda>item. keepItem (gfItem_Title item)) items"

text \<open>An item that carries both an author and a parsed publication date.\<close>

definition complete :: "'t gofeed_Item \<Rightarrow> bool" where
  "complete item = (gfItem_Author item \<noteq> None \<and> gfItem_PublishedParsed item \<noteq> None)"

text \<open>An author copied field by field.\<close>

definition copyAuthor :: "gofeed_Person \<Rightarrow> feeds_Author" where
  "copyAuthor a = \<lparr> fdAuthor_Name = gfPerson_Name a, fdAuthor_Email = gfPerson_Email a \<rparr>"

text \<open>A string in which no white space character starts at any position.\<close>

definition spaceFree :: "string \<Rightarrow> bool" where
  "spaceFree t = list_all (\<lambda>u. spaceWidth u = 0) (suffixes t)"

text \<open>
  A position at which a field may start: the beginning of the text, or right after a
  white space character.
\<close>

definition boundary :: "string \<Rightarrow> bool" where
  "boundary pre = (pre = [] \<or> list_ex (\<lambda>sp. suffix sp pre) whiteSpace)"

text \<open>A continuation byte of a UTF-8 encoding.\<close>

definition continuation :: "char \<Rightarrow> bool" where
  "continuation c = (128 \<le> (of_char c :: nat) \<and> (of_char c :: nat) < 192)"

text \<open>A byte count in megabytes, as the specification has it: divided by 1024 twice.\<close>

definition megabytes :: "64 word \<Rightarrow> 64 word" where
  "megabytes bytes = bytes div 1024 div 1024"

section \<open>Sample data\<close>

text \<open>The three-item feed of the specification's scenarios, with times as numbers.\<close>

definition sampleItem :: "string \<Rightarrow> nat \<Rightarrow> nat gofeed_Item" where
  "sampleItem title n =
     \<lparr> gfItem_Title = title,
       gfItem_Link = ''http://example.org/'' @ title,
       gfItem_Description = ''about '' @ title,
       gfItem_Author = Some \<lparr> gfPerson_Name = ''Ann'', gfPerson_Email = ''ann@example.org'' \<rparr>,
       gfItem_PublishedParsed = Some n \<rparr>"

definition sampleFeed :: "nat gofeed_Feed" where
  "sampleFeed =
     \<lparr> gfFeed_Title = ''News'',
       gfFeed_Link = ''http://example.org/'',
       gfFeed_Description = ''All the news'',
       gfFeed_Author = None,
       gfFeed_Items = [sampleItem ''Alpha launch'' 1, sampleItem ''Beta recall'' 2,
                       sampleItem ''Gamma update'' 3] \<rparr>"

text \<open>Two feeds that real sources produce: an item without a date, one without an author.\<close>

definition undatedFeed :: "nat gofeed_Feed" where
  "undatedFeed =
     sampleFeed\<lparr> gfFeed_Items :=
       [sampleItem ''Alpha launch'' 1,
        (sampleItem ''Beta recall'' 2)\<lparr> gfItem_PublishedParsed := None \<rparr>] \<rparr>"

definition anonymousFeed :: "nat gofeed_Feed" where
  "anonymousFeed =
     sampleFeed\<lparr> gfFeed_Items :=
       [(sampleItem ''Alpha launch'' 1)\<lparr> gfItem_Author := None \<rparr>] \<rparr>"

text \<open>Some regular expressions, by what they match.\<close>

definition emptyMatch :: Regexp where
  "emptyMatch s i j = (i = j \<and> j \<le> length s)"

definition literal :: "string \<Rightarrow> Regexp" where
  "literal word s i j = (j = i + length word \<and> j \<le> length s \<and> take (length word) (drop i s) = word)"

definition beginText_then :: "Regexp \<Rightarrow> Regexp" where
  "beginText_then re s i j = (i = 0 \<and> re s i j)"

text \<open>
  A stand-in for \<open>regexp.Compile\<close> that knows four patterns: the empty pattern,
  \<open>Beta\<close>, \<open>^Beta\<close>, and the unbalanced \<open>(\<close>, for which it gives the error text of
  the real parser.
\<close>

definition sampleCompile :: "string \<Rightarrow> error + Regexp" where
  "sampleCompile pattern =
     (if pattern = [] then Inr emptyMatch
      else if pattern = ''Beta'' then Inr (literal ''Beta'')
      else if pattern = ''^Beta'' then Inr (beginText_then (literal ''Beta''))
      else if pattern = ''('' then Inl ''error parsing regexp: missing closing ): `(`''
      else Inl ''pattern unknown to the stand-in'')"

text \<open>
  A stand-in for the network: three feeds, and a 404 for every other URL, with the
  error text of \<open>gofeed\<close>.
\<close>

definition sampleParseURL :: "string \<Rightarrow> error + nat gofeed_Feed" where
  "sampleParseURL url =
     (if url = ''http://example.org/feed'' then Inr sampleFeed
      else if url = ''http://example.org/undated'' then Inr undatedFeed
      else if url = ''http://example.org/anonymous'' then Inr anonymousFeed
      else Inl ''http error: 404 Not Found'')"

text \<open>A stand-in for the serialiser: the titles of the items between tags; it never fails.\<close>

definition sampleWriteRss :: "nat feeds_Feed \<Rightarrow> string \<times> error option" where
  "sampleWriteRss feed =
     (''<rss>'' @ concat (map (\<lambda>item. ''<item>'' @ fdItem_Title item @ ''</item>'') (fdFeed_Items feed))
        @ ''</rss>'', None)"

definition sampleEnv :: "nat env" where
  "sampleEnv =
     \<lparr> indexHTML = ''<html></html>'',
       regexp_Compile = sampleCompile,
       ParseURL = sampleParseURL,
       time_Now = 100,
       WriteRss = sampleWriteRss \<rparr>"

text \<open>A request in skip mode.\<close>

definition skipQuery :: url_Values where
  "skipQuery = [(''url'', [''http://example.org/feed'']), (''skip'', [''recall''])]"

text \<open>A request in regex mode.\<close>

definition regexQuery :: url_Values where
  "regexQuery = [(''url'', [''http://example.org/feed'']), (''re'', [''Beta''])]"

text \<open>A request whose pattern does not compile.\<close>

definition badRegexQuery :: url_Values where
  "badRegexQuery = [(''url'', [''http://example.org/feed'']), (''re'', [''(''])]"

text \<open>Requests without a filter, without a URL, and for a feed that is gone.\<close>

definition noFilterQuery :: url_Values where
  "noFilterQuery = [(''foo'', [''1''])]"

definition skipOnlyQuery :: url_Values where
  "skipOnlyQuery = [(''skip'', [''recall''])]"

definition notFoundQuery :: url_Values where
  "notFoundQuery = [(''url'', [''http://example.org/gone'']), (''skip'', [''recall''])]"

text \<open>
  Requests with the empty pattern, for the feed with an undated item (the skip word
  drops the dated one), and for the feed with an item without author.
\<close>

definition emptyRegexQuery :: url_Values where
  "emptyRegexQuery = [(''url'', [''http://example.org/feed'']), (''re'', [''''])]"

definition undatedQuery :: url_Values where
  "undatedQuery = [(''url'', [''http://example.org/undated'']), (''skip'', [''launch''])]"

definition anonymousQuery :: url_Values where
  "anonymousQuery = [(''url'', [''http://example.org/anonymous'']), (''skip'', [''recall''])]"

text \<open>
  Floating point numbers stood in for by hundredths, with the two verbs on them, and
  the readings of a host with 2 GiB of memory, half of it used.
\<close>

definition sampleFloats :: "nat floats" where
  "sampleFloats =
     \<lparr> float_zero = 0,
       verb_2f = (\<lambda>h. decimal (h div 100) @ ''.'' @ decimal (h mod 100 div 10) @ decimal (h mod 10)),
       verb_0f = (\<lambda>h. decimal ((h + 50) div 100)) \<rparr>"

definition sampleReadings :: "nat readings" where
  "sampleReadings =
     \<lparr> cpu_Percent = [1250],
       MemStats_Alloc = 3145728,
       mem_VirtualMemory = Some \<lparr> vm_Total = 2147483648, vm_Used = 1073741824, vm_UsedPercent = 5000 \<rparr>,
       NumGoroutine = 4 \<rparr>"

text \<open>A request with an anchored pattern.\<close>

definition anchoredQuery :: url_Values where
  "anchoredQuery = [(''url'', [''http://example.org/feed'']), (''re'', [''^Beta''])]"


definition emptyRegexAnonymousQuery :: url_Values where
  "emptyRegexAnonymousQuery = [(''url'', [''http://example.org/anonymous'']), (''re'', [''''])]"

section \<open>Properties of the filter loop\<close>

lemma filterLoop_Inr:
  "filterLoop keepItem items acc = Inr out \<longleftrightarrow>
     (\<exists>new. out = acc @ new \<and> map Inr new = map newItem (kept keepItem items))"
proof (induction items arbitrary: acc)
  case Nil
  then show ?case by (auto simp: kept_def)
next
  case (Cons item rest)
  show ?case
  proof (cases "keepItem (gfItem_Title item)")
    case False
    then show ?thesis using Cons.IH [of acc] by (simp add: kept_def)
  next
    case True
    show ?thesis
    proof (cases "newItem item")
      case (Inl p)
      then show ?thesis using True by (auto simp: kept_def)
    next
      case (Inr new)
      then show ?thesis using True Cons.IH [of "acc @ [new]"]
        by (auto simp: kept_def Cons_eq_map_conv)
    qed
  qed
qed

lemma newItem_complete: "complete item \<Longrightarrow> \<exists>new. newItem item = Inr new"
  by (auto simp: complete_def newItem_def)

lemma newItem_Inr_complete: "newItem item = Inr new \<Longrightarrow> complete item"
  by (auto simp: complete_def newItem_def split: option.splits)

lemma map_newItem_complete:
  "list_all complete xs \<Longrightarrow> \<exists>new. map Inr new = map newItem xs"
proof (induction xs)
  case Nil
  then show ?case by simp
next
  case (Cons x xs)
  then obtain new where new: "map Inr new = map newItem xs" by auto
  from Cons.prems obtain y where "newItem x = Inr y"
    using newItem_complete by force
  with new have "map Inr (y # new) = map newItem (x # xs)" by simp
  then show ?case by blast
qed

lemma filterLoop_total:
  assumes "list_all complete (kept keepItem items)"
  shows "\<exists>new. filterLoop keepItem items acc = Inr (acc @ new)
            \<and> map Inr new = map newItem (kept keepItem items)"
  using map_newItem_complete [OF assms] filterLoop_Inr by blast

text \<open>The loop panics exactly when some kept item lacks its author or its date.\<close>

lemma filterLoop_returns_iff:
  "(\<exists>out. filterLoop keepItem items acc = Inr out) \<longleftrightarrow> list_all complete (kept keepItem items)"
proof
  assume "\<exists>out. filterLoop keepItem items acc = Inr out"
  then obtain new where new: "map Inr new = map newItem (kept keepItem items)"
    using filterLoop_Inr by blast
  show "list_all complete (kept keepItem items)"
    unfolding list_all_iff
  proof
    fix item assume "item \<in> set (kept keepItem items)"
    then have "newItem item \<in> set (map Inr new)" using new by simp
    then show "complete item" using newItem_Inr_complete by auto
  qed
next
  assume "list_all complete (kept keepItem items)"
  then show "\<exists>out. filterLoop keepItem items acc = Inr out"
    using filterLoop_total by blast
qed

lemma filteredFeed_total:
  assumes "list_all complete (kept keepItem (gfFeed_Items feed))"
  shows "\<exists>out. filteredFeed now keepItem feed = Inr out
           \<and> map Inr (fdFeed_Items out) = map newItem (kept keepItem (gfFeed_Items feed))"
proof -
  from filterLoop_total [OF assms, of "[]"]
  obtain new where "filterLoop keepItem (gfFeed_Items feed) [] = Inr new"
    and "map Inr new = map newItem (kept keepItem (gfFeed_Items feed))" by auto
  then show ?thesis by (simp add: filteredFeed_def)
qed

lemma filteredFeed_cases:
  "filteredFeed now keepItem feed = Inr out \<Longrightarrow>
     filterLoop keepItem (gfFeed_Items feed) [] = Inr (fdFeed_Items out)"
proof (cases "filterLoop keepItem (gfFeed_Items feed) []")
  case (Inl p)
  assume "filteredFeed now keepItem feed = Inr out"
  with Inl show ?thesis by (simp add: filteredFeed_def)
next
  case (Inr new)
  assume "filteredFeed now keepItem feed = Inr out"
  with Inr have "fdFeed_Items out = new"
    unfolding filteredFeed_def by (simp, metis feeds_Feed.select_convs(6))
  with Inr show ?thesis by simp
qed

lemma filteredFeed_Inr:
  assumes "filteredFeed now keepItem feed = Inr out"
  shows "map Inr (fdFeed_Items out) = map newItem (kept keepItem (gfFeed_Items feed))"
  using filteredFeed_cases [OF assms] filterLoop_Inr [of keepItem "gfFeed_Items feed" "[]"]
  by simp

lemma filteredFeed_returns_iff:
  "(\<exists>out. filteredFeed now keepItem feed = Inr out)
     \<longleftrightarrow> list_all complete (kept keepItem (gfFeed_Items feed))"
proof
  assume "\<exists>out. filteredFeed now keepItem feed = Inr out"
  then obtain out where "filteredFeed now keepItem feed = Inr out" ..
  then have "filterLoop keepItem (gfFeed_Items feed) [] = Inr (fdFeed_Items out)"
    by (rule filteredFeed_cases)
  then have "\<exists>new. filterLoop keepItem (gfFeed_Items feed) [] = Inr new" ..
  then show "list_all complete (kept keepItem (gfFeed_Items feed))"
    by (simp add: filterLoop_returns_iff)
next
  assume "list_all complete (kept keepItem (gfFeed_Items feed))"
  from filteredFeed_total [OF this, of now]
  obtain out where "filteredFeed now keepItem feed = Inr out" by (elim exE conjE)
  then show "\<exists>out. filteredFeed now keepItem feed = Inr out" ..
qed

lemma kept_indices:
  "kept keepItem items =
     map ((!) items) (filter (\<lambda>k. keepItem (gfItem_Title (items ! k))) [0..<length items])"
proof -
  have "map ((!) items) (filter (\<lambda>k. keepItem (gfItem_Title (items ! k))) [0..<length items])
      = filter (\<lambda>item. keepItem (gfItem_Title item)) (map ((!) items) [0..<length items])"
    by (simp add: filter_map comp_def)
  then show ?thesis by (simp add: kept_def map_nth)
qed

lemma strict_indices:
  "sorted_wrt (<) (filter P [0..<n]) \<and> set (filter P [0..<n]) \<subseteq> {..<n}"
  by (auto intro: sorted_wrt_filter)

text \<open>What the conversion of an item copies, when it returns.\<close>

lemma newItem_copies:
  assumes "newItem item = Inr new"
  shows "fdItem_Title new = gfItem_Title item
         \<and> fdItem_Link new = Some \<lparr> fdLink_Href = gfItem_Link item \<rparr>
         \<and> fdItem_Description new = gfItem_Description item
         \<and> (\<exists>author. gfItem_Author item = Some author
                \<and> fdItem_Author new = Some \<lparr> fdAuthor_Name = gfPerson_Name author,
                                               fdAuthor_Email = gfPerson_Email author \<rparr>)
         \<and> gfItem_PublishedParsed item = Some (fdItem_Created new)"
  using assms by (auto simp: newItem_def split: option.splits)

text \<open>
  Where the loop finishes, the items of the output feed are the kept items, one for
  one and in order, with title, link, description, author and date copied.
\<close>

lemma converted_fields:
  "map Inr new = map newItem xs \<Longrightarrow>
     map fdItem_Title new = map gfItem_Title xs
     \<and> map fdItem_Link new = map (\<lambda>item. Some \<lparr> fdLink_Href = gfItem_Link item \<rparr>) xs
     \<and> map fdItem_Description new = map gfItem_Description xs
     \<and> map fdItem_Author new = map (\<lambda>item. map_option copyAuthor (gfItem_Author item)) xs
     \<and> map (\<lambda>n. Some (fdItem_Created n)) new = map gfItem_PublishedParsed xs"
proof (induction xs arbitrary: new)
  case Nil
  then show ?case by simp
next
  case (Cons x xs)
  then obtain n ns where new: "new = n # ns" and n: "newItem x = Inr n"
    and ns: "map Inr ns = map newItem xs"
    by (cases new) auto
  from newItem_copies [OF n] have
    "fdItem_Title n = gfItem_Title x"
    "fdItem_Link n = Some \<lparr> fdLink_Href = gfItem_Link x \<rparr>"
    "fdItem_Description n = gfItem_Description x"
    "fdItem_Author n = map_option copyAuthor (gfItem_Author x)"
    "Some (fdItem_Created n) = gfItem_PublishedParsed x"
    by (auto simp: copyAuthor_def)
  with Cons.IH [OF ns] new show ?case by simp
qed

lemma output_items_copy_kept_items:
  assumes "filteredFeed now keepItem feed = Inr out"
  shows "map fdItem_Title (fdFeed_Items out) = map gfItem_Title (kept keepItem (gfFeed_Items feed))
     \<and> map fdItem_Link (fdFeed_Items out)
         = map (\<lambda>item. Some \<lparr> fdLink_Href = gfItem_Link item \<rparr>) (kept keepItem (gfFeed_Items feed))
     \<and> map fdItem_Description (fdFeed_Items out)
         = map gfItem_Description (kept keepItem (gfFeed_Items feed))
     \<and> map fdItem_Author (fdFeed_Items out)
         = map (\<lambda>item. map_option copyAuthor (gfItem_Author item)) (kept keepItem (gfFeed_Items feed))
     \<and> map (\<lambda>n. Some (fdItem_Created n)) (fdFeed_Items out)
         = map gfItem_PublishedParsed (kept keepItem (gfFeed_Items feed))
     \<and> length (fdFeed_Items out) = length (kept keepItem (gfFeed_Items feed))
     \<and> length (fdFeed_Items out) \<le> length (gfFeed_Items feed)"
proof -
  from assms have eq: "map Inr (fdFeed_Items out) = map newItem (kept keepItem (gfFeed_Items feed))"
    by (rule filteredFeed_Inr)
  then have len: "length (fdFeed_Items out) = length (kept keepItem (gfFeed_Items feed))"
    by (metis length_map)
  moreover have "length (kept keepItem (gfFeed_Items feed)) \<le> length (gfFeed_Items feed)"
    by (simp add: kept_def)
  ultimately show ?thesis using converted_fields [OF eq] by simp
qed

text \<open>
  The kept items are the source items whose title satisfies the predicate, a
  subsequence of the source items taken at strictly increasing positions.
\<close>

lemma kept_subsequence:
  "set (kept keepItem items) = {item \<in> set items. keepItem (gfItem_Title item)}
   \<and> subseq (kept keepItem items) items
   \<and> (\<exists>ks. sorted_wrt (<) ks \<and> set ks \<subseteq> {..<length items}
          \<and> kept keepItem items = map ((!) items) ks)"
proof (intro conjI)
  show "set (kept keepItem items) = {item \<in> set items. keepItem (gfItem_Title item)}"
    by (auto simp: kept_def)
  show "subseq (kept keepItem items) items"
    by (simp add: kept_def)
  show "\<exists>ks. sorted_wrt (<) ks \<and> set ks \<subseteq> {..<length items}
          \<and> kept keepItem items = map ((!) items) ks"
    using kept_indices [of keepItem items] strict_indices by blast
qed

text \<open>The loop panics exactly when a kept item lacks its author or its date.\<close>

lemma filteredFeed_panics_iff:
  "filteredFeed now keepItem feed = Inl NilPointerDereference
     \<longleftrightarrow> \<not> list_all complete (kept keepItem (gfFeed_Items feed))"
proof -
  have "filteredFeed now keepItem feed = Inl NilPointerDereference
          \<longleftrightarrow> \<not> (\<exists>out. filteredFeed now keepItem feed = Inr out)"
  proof (cases "filteredFeed now keepItem feed")
    case (Inl p)
    then show ?thesis by (cases p) simp
  next
    case (Inr out)
    then show ?thesis by simp
  qed
  then show ?thesis by (simp add: filteredFeed_returns_iff)
qed

section \<open>The skip-word predicate\<close>

lemma skipLoop_iff: "skipLoop skips ws \<longleftrightarrow> set ws \<inter> set skips = {}"
  by (induction ws) auto

lemma whiteSpace_nonempty: "sp \<in> set whiteSpace \<Longrightarrow> sp \<noteq> []"
  by (auto simp: whiteSpace_def)

lemma spaceWidth_0_iff: "spaceWidth s = 0 \<longleftrightarrow> (\<forall>sp \<in> set whiteSpace. \<not> prefix sp s)"
proof
  assume "spaceWidth s = 0"
  show "\<forall>sp \<in> set whiteSpace. \<not> prefix sp s"
  proof (cases "filter (\<lambda>sp. prefix sp s) whiteSpace")
    case Nil
    then show ?thesis by (simp add: filter_empty_conv)
  next
    case (Cons sp rest)
    then have "sp \<in> set (filter (\<lambda>sp. prefix sp s) whiteSpace)" by simp
    then have "sp \<in> set whiteSpace" by simp
    then have "sp \<noteq> []" by (rule whiteSpace_nonempty)
    with Cons \<open>spaceWidth s = 0\<close> show ?thesis by (simp add: spaceWidth_def)
  qed
next
  assume "\<forall>sp \<in> set whiteSpace. \<not> prefix sp s"
  then have "filter (\<lambda>sp. prefix sp s) whiteSpace = []" by (simp add: filter_empty_conv)
  then show "spaceWidth s = 0" by (simp add: spaceWidth_def)
qed

lemma spaceWidth_append_0: "spaceWidth (u @ v) = 0 \<Longrightarrow> spaceWidth u = 0"
  unfolding spaceWidth_0_iff by (meson prefix_order.trans prefix_append prefixI)

lemma spaceFree_iff: "spaceFree t \<longleftrightarrow> (\<forall>u. suffix u t \<longrightarrow> spaceWidth u = 0)"
  by (auto simp: spaceFree_def list_all_iff)

lemma fieldsFrom_nonempty: "[] \<notin> set (fieldsFrom field s)"
  by (induction field s rule: fieldsFrom.induct) auto

lemma fieldsFrom_spaceFree:
  "(\<And>u. suffix u field \<Longrightarrow> u \<noteq> [] \<Longrightarrow> spaceWidth (u @ s) = 0)
     \<Longrightarrow> t \<in> set (fieldsFrom field s) \<Longrightarrow> spaceFree t"
proof (induction field s rule: fieldsFrom.induct)
  case (1 field)
  then have "t = field" by (auto split: if_splits)
  have "spaceWidth u = 0" if "suffix u t" for u
  proof (cases "u = []")
    case True
    then show ?thesis by (simp add: spaceWidth_0_iff whiteSpace_def)
  next
    case False
    with that 1(1) [of u] \<open>t = field\<close> show ?thesis by simp
  qed
  then show ?case by (simp add: spaceFree_iff)
next
  case (2 field c s)
  show ?case
  proof (cases "spaceWidth (c # s) = 0")
    case True
    have "spaceWidth (u @ s) = 0" if "suffix u (field @ [c])" "u \<noteq> []" for u
    proof -
      from that obtain u' where u: "u = u' @ [c]" "suffix u' field"
        by (metis suffix_snoc snoc_eq_iff_butlast suffix_append append_Nil2 suffix_bot.extremum_uniqueI)
      show ?thesis
      proof (cases "u' = []")
        case True
        with u \<open>spaceWidth (c # s) = 0\<close> show ?thesis by simp
      next
        case False
        with u 2(3) [of u'] show ?thesis by simp
      qed
    qed
    with 2(1) [OF True] 2(4) True show ?thesis by simp
  next
    case False
    from 2(4) False consider "t = field" "field \<noteq> []"
      | "t \<in> set (fieldsFrom [] (drop (spaceWidth (c # s)) (c # s)))"
      by (auto split: if_splits)
    then show ?thesis
    proof cases
      case 1
      have "spaceWidth u = 0" if "suffix u t" for u
      proof (cases "u = []")
        case True
        then show ?thesis by (simp add: spaceWidth_0_iff whiteSpace_def)
      next
        case False
        with that 2(3) [of u] \<open>t = field\<close> show ?thesis
          using spaceWidth_append_0 by blast
      qed
      then show ?thesis by (simp add: spaceFree_iff)
    next
      case 2
      with "2.IH"(2) [OF False] show ?thesis by simp
    qed
  qed
qed

lemma fieldsFrom_sublist: "t \<in> set (fieldsFrom field s) \<Longrightarrow> sublist t (field @ s)"
proof (induction field s rule: fieldsFrom.induct)
  case (1 field)
  then show ?case by (auto split: if_splits)
next
  case (2 field c s)
  show ?case
  proof (cases "spaceWidth (c # s) = 0")
    case True
    with 2 show ?thesis by simp
  next
    case False
    from 2(3) False consider "t = field"
      | "t \<in> set (fieldsFrom [] (drop (spaceWidth (c # s)) (c # s)))"
      by (auto split: if_splits)
    then show ?thesis
    proof cases
      case 1
      then show ?thesis by (simp add: sublist_append_rightI)
    next
      case 2
      with "2.IH"(2) [OF False] have "sublist t (drop (spaceWidth (c # s)) (c # s))" by simp
      moreover have "sublist (drop (spaceWidth (c # s)) (c # s)) (field @ c # s)"
        by (metis sublist_drop sublist_append_leftI sublist_order.order.trans)
      ultimately show ?thesis by (rule sublist_order.order.trans)
    qed
  qed
qed

lemma spaceWidth_take:
  assumes "spaceWidth s \<noteq> 0"
  shows "take (spaceWidth s) s \<in> set whiteSpace"
proof (cases "filter (\<lambda>sp. prefix sp s) whiteSpace")
  case Nil
  with assms show ?thesis by (simp add: spaceWidth_def)
next
  case (Cons sp rest)
  then have "sp \<in> set (filter (\<lambda>sp. prefix sp s) whiteSpace)" by simp
  then have sp: "sp \<in> set whiteSpace" "prefix sp s" by simp_all
  from Cons have "spaceWidth s = length sp" by (simp add: spaceWidth_def)
  moreover from sp(2) have "take (length sp) s = sp" by (auto simp: prefix_def)
  ultimately show ?thesis using sp(1) by simp
qed

lemma fieldsFrom_delimited:
  "boundary pre0 \<Longrightarrow> t \<in> set (fieldsFrom field s) \<Longrightarrow>
     \<exists>pre post. pre0 @ field @ s = pre @ t @ post \<and> boundary pre
                \<and> (post = [] \<or> spaceWidth post \<noteq> 0)"
proof (induction field s arbitrary: pre0 rule: fieldsFrom.induct)
  case (1 field)
  then have "t = field" by (auto split: if_splits)
  with 1(1) have "pre0 @ field @ [] = pre0 @ t @ [] \<and> boundary pre0 \<and> ([] = [] \<or> spaceWidth [] \<noteq> 0)"
    by simp
  then show ?case by blast
next
  case (2 field c s)
  show ?case
  proof (cases "spaceWidth (c # s) = 0")
    case True
    with 2(1) [OF True 2(3)] 2(4) show ?thesis by simp
  next
    case False
    let ?k = "spaceWidth (c # s)"
    from 2(4) False consider "t = field"
      | "t \<in> set (fieldsFrom [] (drop ?k (c # s)))"
      by (auto split: if_splits)
    then show ?thesis
    proof cases
      case 1
      with 2(3) False
      have "pre0 @ field @ c # s = pre0 @ t @ (c # s) \<and> boundary pre0
              \<and> (c # s = [] \<or> spaceWidth (c # s) \<noteq> 0)"
        by simp
      then show ?thesis by blast
    next
      case 2
      have "take ?k (c # s) \<in> set whiteSpace" using False by (rule spaceWidth_take)
      then have b: "boundary (pre0 @ field @ take ?k (c # s))"
        unfolding boundary_def list_ex_iff by (metis suffixI append.assoc)
      from "2.IH"(2) [OF False b 2]
      obtain pre post where
        "(pre0 @ field @ take ?k (c # s)) @ [] @ drop ?k (c # s) = pre @ t @ post"
        "boundary pre" "post = [] \<or> spaceWidth post \<noteq> 0"
        by blast
      moreover have "(pre0 @ field @ take ?k (c # s)) @ [] @ drop ?k (c # s) = pre0 @ field @ c # s"
        by (metis append.assoc append_Nil append_take_drop_id)
      ultimately show ?thesis by metis
    qed
  qed
qed

lemma Fields_token:
  assumes "t \<in> set (Fields s)"
  shows "t \<noteq> [] \<and> spaceFree t
         \<and> (\<exists>pre post. s = pre @ t @ post \<and> boundary pre \<and> (post = [] \<or> spaceWidth post \<noteq> 0))"
proof -
  from assms have t: "t \<in> set (fieldsFrom [] s)" by (simp add: Fields_def)
  have "t \<noteq> []" using t fieldsFrom_nonempty by metis
  moreover have "spaceFree t" using t by (rule fieldsFrom_spaceFree [rotated]) simp
  moreover have "boundary []" by (simp add: boundary_def)
  from fieldsFrom_delimited [OF this t]
  have "\<exists>pre post. s = pre @ t @ post \<and> boundary pre \<and> (post = [] \<or> spaceWidth post \<noteq> 0)"
    by simp
  ultimately show ?thesis by blast
qed

lemma spaceWidth_whiteSpace:
  "sp \<in> set whiteSpace \<Longrightarrow> spaceWidth (sp @ s) = length sp"
  unfolding whiteSpace_def spaceWidth_def by (elim disjE | simp)+

lemma whiteSpace_tl: "w \<in> set whiteSpace \<Longrightarrow> c \<in> set (tl w) \<Longrightarrow> continuation c"
  unfolding whiteSpace_def continuation_def by auto

lemma whiteSpace_hd: "sp \<in> set whiteSpace \<Longrightarrow> \<not> continuation (hd sp)"
  unfolding whiteSpace_def continuation_def by auto

lemma spaceWidth_before_space:
  assumes free: "spaceWidth u = 0" and u: "u \<noteq> []" and sp: "sp \<in> set whiteSpace"
  shows "spaceWidth (u @ sp @ s) = 0"
  unfolding spaceWidth_0_iff
proof
  fix w assume w: "w \<in> set whiteSpace"
  show "\<not> prefix w (u @ sp @ s)"
  proof
    assume "prefix w (u @ sp @ s)"
    then have "prefix w u \<or> (\<exists>us. w = u @ us \<and> prefix us (sp @ s))"
      by (rule prefix_append [THEN iffD1])
    then consider "prefix w u" | w' where "w = u @ w'" "w' \<noteq> []" "prefix w' (sp @ s)"
      by (metis append_Nil2 prefix_order.order_refl)
    then show False
    proof cases
      case 1
      with free w show False by (simp add: spaceWidth_0_iff)
    next
      case 2
      from sp have "sp \<noteq> []" by (rule whiteSpace_nonempty)
      with 2(2,3) have "hd w' = hd sp" by (cases w'; cases sp) auto
      moreover from 2(1,2) u have "hd w' \<in> set (tl w)" by (cases u; cases w') auto
      ultimately show False using whiteSpace_tl [OF w] whiteSpace_hd [OF sp] by metis
    qed
  qed
qed

lemma fieldsFrom_field_then_space:
  assumes "\<And>u. suffix u t \<Longrightarrow> u \<noteq> [] \<Longrightarrow> spaceWidth (u @ sp @ s) = 0"
    and "field @ t \<noteq> []" and "sp \<in> set whiteSpace"
  shows "fieldsFrom field (t @ sp @ s) = (field @ t) # fieldsFrom [] s"
  using assms
proof (induction t arbitrary: field)
  case Nil
  from Nil(3) have ne: "sp \<noteq> []" by (rule whiteSpace_nonempty)
  then obtain c r where cr: "sp @ s = c # r" by (cases sp) auto
  have w: "spaceWidth (sp @ s) = length sp" using Nil(3) by (rule spaceWidth_whiteSpace)
  with ne have "spaceWidth (c # r) \<noteq> 0" using cr by simp
  then have "fieldsFrom field (c # r)
               = (if field = [] then [] else [field]) @ fieldsFrom [] (drop (spaceWidth (c # r)) (c # r))"
    by simp
  moreover have "drop (spaceWidth (c # r)) (c # r) = s"
    using w by (simp add: cr [symmetric])
  ultimately have "fieldsFrom field (c # r) = field # fieldsFrom [] s"
    using Nil(2) by simp
  then show ?case by (simp add: cr)
next
  case (Cons c t)
  have "spaceWidth ((c # t) @ sp @ s) = 0" using Cons.prems(1) [of "c # t"] by simp
  then have "fieldsFrom field ((c # t) @ sp @ s) = fieldsFrom (field @ [c]) (t @ sp @ s)"
    by simp
  also have "\<dots> = ((field @ [c]) @ t) # fieldsFrom [] s"
  proof (rule Cons.IH)
    show "spaceWidth (u @ sp @ s) = 0" if "suffix u t" "u \<noteq> []" for u
      using that Cons.prems(1) [of u] by (simp add: suffix_Cons)
  qed (use Cons.prems in simp_all)
  finally show ?case by simp
qed

lemma fieldsFrom_field_at_end:
  assumes "\<And>u. suffix u t \<Longrightarrow> spaceWidth u = 0"
  shows "fieldsFrom field t = (if field @ t = [] then [] else [field @ t])"
  using assms
proof (induction t arbitrary: field)
  case Nil
  then show ?case by simp
next
  case (Cons c t)
  have "spaceWidth (c # t) = 0" using Cons.prems [of "c # t"] by simp
  then have "fieldsFrom field (c # t) = fieldsFrom (field @ [c]) t" by simp
  also have "\<dots> = (if (field @ [c]) @ t = [] then [] else [(field @ [c]) @ t])"
    by (rule Cons.IH) (use Cons.prems in \<open>simp add: suffix_Cons\<close>)
  finally show ?case by simp
qed

text \<open>
  Four equations that determine the fields of every text: the empty text has none, a
  white space character in front is skipped, a non-empty piece without white space is
  a field when it ends the text, and when a white space character follows it.
\<close>

lemma Fields_Nil: "Fields [] = []"
  by (simp add: Fields_def)

lemma Fields_space: "sp \<in> set whiteSpace \<Longrightarrow> Fields (sp @ s) = Fields s"
proof -
  assume sp: "sp \<in> set whiteSpace"
  then have ne: "sp \<noteq> []" by (rule whiteSpace_nonempty)
  then obtain c r where cr: "sp @ s = c # r" by (cases sp) auto
  have w: "spaceWidth (sp @ s) = length sp" using sp by (rule spaceWidth_whiteSpace)
  with ne have "spaceWidth (c # r) \<noteq> 0" using cr by simp
  then have "fieldsFrom [] (c # r) = fieldsFrom [] (drop (spaceWidth (c # r)) (c # r))"
    by simp
  moreover have "drop (spaceWidth (c # r)) (c # r) = s"
    using w by (simp add: cr [symmetric])
  ultimately have "fieldsFrom [] (c # r) = fieldsFrom [] s" by simp
  then show ?thesis by (simp add: Fields_def cr)
qed

lemma Fields_last: "t \<noteq> [] \<Longrightarrow> spaceFree t \<Longrightarrow> Fields t = [t]"
  using fieldsFrom_field_at_end [of t "[]"] by (simp add: Fields_def spaceFree_iff)

lemma Fields_field:
  assumes "t \<noteq> []" and "spaceFree t" and "sp \<in> set whiteSpace"
  shows "Fields (t @ sp @ s) = t # Fields s"
proof -
  have "spaceWidth (u @ sp @ s) = 0" if "suffix u t" "u \<noteq> []" for u
    using that assms(2,3) by (intro spaceWidth_before_space) (simp_all add: spaceFree_iff)
  then have "fieldsFrom [] (t @ sp @ s) = ([] @ t) # fieldsFrom [] s"
    using assms(1,3) by (intro fieldsFrom_field_then_space) simp_all
  then show ?thesis by (simp add: Fields_def)
qed

text \<open>
  Claim C4. Without an \<open>re\<close> parameter and with \<open>skip\<close> parameters, a predicate is
  built, and it keeps a title exactly when no field of the title, as \<open>strings.Fields\<close>
  splits it on white space, is equal to one of the skip words (equality of strings:
  case-sensitive, the whole token). With no skip word every title is kept. By
  \<open>Fields_token\<close> the fields are non-empty, white-space-free pieces of the title that
  white space or the ends of the title delimit, and by the four equations above every
  such piece is a field.
\<close>

theorem skip_mode_keeps_iff_no_token_skipped:
  assumes "\<not> Values_Has query ''re''" and "map_of query ''skip'' = Some skips"
  shows "\<exists>keepItem. keepItem_of env query = Inr keepItem
           \<and> (\<forall>title. keepItem title \<longleftrightarrow> (\<forall>token \<in> set (Fields title). token \<notin> set skips))
           \<and> (skips = [] \<longrightarrow> (\<forall>title. keepItem title))"
proof -
  from assms have "keepItem_of env query = Inr (keepItem_skip skips)"
    by (simp add: keepItem_of_def)
  moreover have "keepItem_skip skips title \<longleftrightarrow> (\<forall>token \<in> set (Fields title). token \<notin> set skips)"
    for title by (auto simp: keepItem_skip_def skipLoop_iff)
  ultimately show ?thesis by auto
qed

lemma Fields_examples:
  "Fields ''Alpha launch'' = [''Alpha'', ''launch'']"
  "Fields ''Beta recall'' = [''Beta'', ''recall'']"
  "Fields ''Beta Recall'' = [''Beta'', ''Recall'']"
  "Fields ''Beta recalled'' = [''Beta'', ''recalled'']"
  by (simp_all add: Fields_def spaceWidth_def whiteSpace_def)

theorem skip_mode_keeps_iff_no_token_skipped_witness:
  "\<not> Values_Has skipQuery ''re'' \<and> map_of skipQuery ''skip'' = Some [''recall'']
   \<and> (\<exists>keepItem. keepItem_of sampleEnv skipQuery = Inr keepItem
          \<and> keepItem ''Alpha launch'' \<and> \<not> keepItem ''Beta recall''
          \<and> keepItem ''Beta Recall'' \<and> keepItem ''Beta recalled'')"
proof -
  have h1: "\<not> Values_Has skipQuery ''re''" by (simp add: Values_Has_def skipQuery_def)
  have h2: "map_of skipQuery ''skip'' = Some [''recall'']" by (simp add: skipQuery_def)
  from skip_mode_keeps_iff_no_token_skipped [OF h1 h2, of sampleEnv]
  obtain keepItem where k: "keepItem_of sampleEnv skipQuery = Inr keepItem"
    and iff: "\<And>title. keepItem title \<longleftrightarrow> (\<forall>token \<in> set (Fields title). token \<notin> set [''recall''])"
    by blast
  have "keepItem ''Alpha launch''" "\<not> keepItem ''Beta recall''"
    "keepItem ''Beta Recall''" "keepItem ''Beta recalled''"
    unfolding iff Fields_examples by simp_all
  with h1 h2 k show ?thesis by blast
qed

section \<open>The regular expression predicate\<close>

lemma MatchString_iff:
  "MatchString re s \<longleftrightarrow> (\<exists>i j. i \<le> j \<and> j \<le> length s \<and> re s i j)"
proof
  assume "MatchString re s"
  then obtain i j where "j \<in> set [i..<Suc (length s)]" "re s i j"
    unfolding MatchString_def list_ex_iff by blast
  then have "i \<le> j \<and> j \<le> length s \<and> re s i j" by auto
  then show "\<exists>i j. i \<le> j \<and> j \<le> length s \<and> re s i j" by blast
next
  assume "\<exists>i j. i \<le> j \<and> j \<le> length s \<and> re s i j"
  then obtain i j where ij: "i \<le> j" "j \<le> length s" "re s i j" by blast
  then have "i \<in> set [0..<Suc (length s)]" "j \<in> set [i..<Suc (length s)]" by auto
  with ij(3) show "MatchString re s"
    unfolding MatchString_def list_ex_iff by blast
qed

text \<open>
  Claim C5. With an \<open>re\<close> parameter whose pattern compiles, a predicate is built, and
  it keeps a title exactly when the compiled pattern matches some stretch of the
  title, from any position \<open>i\<close> to any position \<open>j\<close>: a search, not a match of the
  whole title.
\<close>

theorem regex_mode_keeps_iff_match_anywhere:
  assumes "Values_Has query ''re''"
    and "regexp_Compile env (Values_Get query ''re'') = Inr regex"
  shows "\<exists>keepItem. keepItem_of env query = Inr keepItem
           \<and> (\<forall>title. keepItem title \<longleftrightarrow> (\<exists>i j. i \<le> j \<and> j \<le> length title \<and> regex title i j))"
  using assms by (simp add: keepItem_of_def MatchString_iff)

theorem regex_mode_keeps_iff_match_anywhere_witness:
  "Values_Has regexQuery ''re''
   \<and> regexp_Compile sampleEnv (Values_Get regexQuery ''re'') = Inr (literal ''Beta'')
   \<and> (\<exists>keepItem. keepItem_of sampleEnv regexQuery = Inr keepItem
          \<and> keepItem ''Beta recall'' \<and> keepItem ''The Beta'' \<and> \<not> keepItem ''Alpha launch'')"
proof -
  have h1: "Values_Has regexQuery ''re''" by (simp add: Values_Has_def regexQuery_def)
  have h2: "regexp_Compile sampleEnv (Values_Get regexQuery ''re'') = Inr (literal ''Beta'')"
    by (simp add: sampleEnv_def sampleCompile_def Values_Get_def regexQuery_def)
  from regex_mode_keeps_iff_match_anywhere [OF h1 h2]
  obtain keepItem where k: "keepItem_of sampleEnv regexQuery = Inr keepItem"
    and iff: "\<And>title. keepItem title \<longleftrightarrow>
                (\<exists>i j. i \<le> j \<and> j \<le> length title \<and> literal ''Beta'' title i j)"
    by blast
  have ms: "keepItem title \<longleftrightarrow> MatchString (literal ''Beta'') title" for title
    by (simp add: iff MatchString_iff)
  have a: "keepItem ''Beta recall''" and b: "keepItem ''The Beta''"
    and c: "\<not> keepItem ''Alpha launch''"
    unfolding ms by (simp_all add: MatchString_def literal_def)
  from h1 h2 k a b c show ?thesis by blast
qed

section \<open>The handler\<close>

lemma Values_Has_len: "Values_Has query key \<Longrightarrow> Values_len query \<noteq> 0"
  by (cases query) (auto simp: Values_Has_def Values_len_def)

lemma Values_len_0: "Values_len query = 0 \<longleftrightarrow> query = []"
  by (cases query) (auto simp: Values_len_def)

lemma http_Error_new:
  "http_Error newResponse msg code =
     \<lparr> Header = [''Content-Type'' \<mapsto> ''text/plain; charset=utf-8'',
                  ''X-Content-Type-Options'' \<mapsto> ''nosniff''],
       status = Some code,
       sentHeader = [''Content-Type'' \<mapsto> ''text/plain; charset=utf-8'',
                      ''X-Content-Type-Options'' \<mapsto> ''nosniff''],
       body = msg @ [CHR 0x0A] \<rparr>"
  by (simp add: http_Error_def newResponse_def Write_def WriteHeader_def Let_def)

text \<open>
  Claim C6. When the \<open>re\<close> parameter does not compile, the handler answers a fresh
  request with status 400 (not 500) and the parser's error text as a plain-text body,
  and returns without having fetched anything from the network.
\<close>

theorem bad_regex_is_400_before_fetch:
  assumes "Values_Has query ''re''"
    and "regexp_Compile env (Values_Get query ''re'') = Inl err"
  shows "\<exists>x. indexHandler env query newExchange = Returned x
           \<and> status (resp x) = Some 400
           \<and> sentHeader (resp x) ''Content-Type'' = Some ''text/plain; charset=utf-8''
           \<and> body (resp x) = err @ [CHR 0x0A]
           \<and> fetched x = []"
proof -
  from assms have "keepItem_of env query = Inl err" by (simp add: keepItem_of_def)
  moreover from assms(1) have "Values_len query \<noteq> 0" by (rule Values_Has_len)
  ultimately have "indexHandler env query newExchange
      = Returned (newExchange\<lparr> resp := http_Error newResponse err StatusBadRequest \<rparr>)"
    by (simp add: indexHandler_def newExchange_def)
  then show ?thesis
    by (simp add: http_Error_new StatusBadRequest_def newExchange_def)
qed

theorem bad_regex_is_400_before_fetch_witness:
  "Values_Has badRegexQuery ''re''
   \<and> regexp_Compile sampleEnv (Values_Get badRegexQuery ''re'')
        = Inl ''error parsing regexp: missing closing ): `(`''
   \<and> (\<exists>x. indexHandler sampleEnv badRegexQuery newExchange = Returned x
          \<and> status (resp x) = Some 400 \<and> fetched x = [])"
proof -
  have h1: "Values_Has badRegexQuery ''re''" by (simp add: Values_Has_def badRegexQuery_def)
  have h2: "regexp_Compile sampleEnv (Values_Get badRegexQuery ''re'')
              = Inl ''error parsing regexp: missing closing ): `(`''"
    by (simp add: sampleEnv_def sampleCompile_def Values_Get_def badRegexQuery_def)
  from bad_regex_is_400_before_fetch [OF h1 h2] h1 h2 show ?thesis by blast
qed

lemma mentions_url: "sublist ''url'' (missing_url @ [CHR 0x0A])"
  by (simp add: missing_url_def sublist_code)

text \<open>
  Claim C7 as stated fails: a request whose only parameter is \<open>foo=1\<close> has a
  non-empty query and no \<open>url\<close>; the handler checks the filter parameters first and
  answers 400 with the body \<open>missing 'skip' or 're'\<close>, which does not mention \<open>url\<close>.
\<close>

theorem missing_url_counterexample:
  "Values_len noFilterQuery \<noteq> 0 \<and> \<not> Values_Has noFilterQuery ''url''
   \<and> indexHandler sampleEnv noFilterQuery newExchange
       = Returned \<lparr> resp = http_Error newResponse missing_filter 400, fetched = [] \<rparr>
   \<and> body (http_Error newResponse missing_filter 400) = missing_filter @ [CHR 0x0A]
   \<and> \<not> sublist ''url'' (missing_filter @ [CHR 0x0A])"
proof -
  have "keepItem_of sampleEnv noFilterQuery = Inl missing_filter"
    by (simp add: keepItem_of_def noFilterQuery_def Values_Has_def missing_filter_def)
  then have "indexHandler sampleEnv noFilterQuery newExchange
       = Returned \<lparr> resp = http_Error newResponse missing_filter 400, fetched = [] \<rparr>"
    by (simp add: indexHandler_def Values_len_def noFilterQuery_def newExchange_def StatusBadRequest_def)
  moreover have "\<not> sublist ''url'' (missing_filter @ [CHR 0x0A])"
    by (simp add: missing_filter_def sublist_code)
  moreover have "Values_len noFilterQuery \<noteq> 0" "\<not> Values_Has noFilterQuery ''url''"
    by (simp_all add: Values_len_def Values_Has_def noFilterQuery_def)
  ultimately show ?thesis by (simp add: http_Error_new)
qed

text \<open>
  Claim C7, amended. For every request with a non-empty query and no \<open>url\<close>
  parameter, the handler answers 400 with a plain-text body and fetches nothing. The
  body is \<open>missing 'url'\<close>, which mentions \<open>url\<close>, when the filter parameters are
  accepted (an \<open>re\<close> that compiles, or no \<open>re\<close> and a \<open>skip\<close>); it is the parser's
  error text when \<open>re\<close> does not compile, and \<open>missing 'skip' or 're'\<close> when there is
  neither \<open>re\<close> nor \<open>skip\<close>.
\<close>

theorem missing_url_is_400:
  assumes "Values_len query \<noteq> 0" and "\<not> Values_Has query ''url''"
  shows "\<exists>x. indexHandler env query newExchange = Returned x
           \<and> status (resp x) = Some 400
           \<and> sentHeader (resp x) ''Content-Type'' = Some ''text/plain; charset=utf-8''
           \<and> fetched x = []
           \<and> body (resp x) =
               (if Values_Has query ''re''
                then (case regexp_Compile env (Values_Get query ''re'') of
                        Inl err \<Rightarrow> err | Inr regex \<Rightarrow> missing_url)
                else if Values_Has query ''skip'' then missing_url else missing_filter)
               @ [CHR 0x0A]
           \<and> sublist ''url'' (missing_url @ [CHR 0x0A])"
proof -
  let ?msg = "if Values_Has query ''re''
                then (case regexp_Compile env (Values_Get query ''re'') of
                        Inl err \<Rightarrow> err | Inr regex \<Rightarrow> missing_url)
                else if Values_Has query ''skip'' then missing_url else missing_filter"
  have "indexHandler env query newExchange
          = Returned (newExchange\<lparr> resp := http_Error newResponse ?msg StatusBadRequest \<rparr>)"
    using assms
    by (auto simp: indexHandler_def keepItem_of_def newExchange_def Values_Has_def
          missing_url_def missing_filter_def split: sum.splits option.splits)
  then show ?thesis
    using mentions_url by (simp add: http_Error_new StatusBadRequest_def newExchange_def)
qed

theorem missing_url_is_400_witness:
  "Values_len skipOnlyQuery \<noteq> 0 \<and> \<not> Values_Has skipOnlyQuery ''url''
   \<and> (\<exists>x. indexHandler sampleEnv skipOnlyQuery newExchange = Returned x
          \<and> status (resp x) = Some 400 \<and> body (resp x) = missing_url @ [CHR 0x0A])"
proof -
  have h1: "Values_len skipOnlyQuery \<noteq> 0" by (simp add: Values_len_def skipOnlyQuery_def)
  have h2: "\<not> Values_Has skipOnlyQuery ''url''" by (simp add: Values_Has_def skipOnlyQuery_def)
  have "\<not> Values_Has skipOnlyQuery ''re''" "Values_Has skipOnlyQuery ''skip''"
    by (simp_all add: Values_Has_def skipOnlyQuery_def)
  with missing_url_is_400 [OF h1 h2, of sampleEnv] h1 h2 show ?thesis by auto
qed

text \<open>
  Claim C8. When the request has a filter and a \<open>url\<close> and fetching or parsing the
  feed fails, the handler answers 500 with the error text as a plain-text body. The
  body holds nothing else, whatever the serialiser would write: no byte of RSS. The
  feed was fetched once.
\<close>

theorem fetch_error_is_500_without_rss:
  assumes "keepItem_of env query = Inr keepItem"
    and "Values_Has query ''url''"
    and "ParseURL env (Values_Get query ''url'') = Inl err"
  shows "\<exists>x. indexHandler env query newExchange = Returned x
           \<and> status (resp x) = Some 500
           \<and> sentHeader (resp x) ''Content-Type'' = Some ''text/plain; charset=utf-8''
           \<and> body (resp x) = err @ [CHR 0x0A]
           \<and> fetched x = [Values_Get query ''url'']"
proof -
  from assms(2) have "Values_len query \<noteq> 0" by (rule Values_Has_len)
  with assms have "indexHandler env query newExchange
      = Returned \<lparr> resp = http_Error newResponse err StatusInternalServerError,
                   fetched = [Values_Get query ''url''] \<rparr>"
    by (simp add: indexHandler_def writeFilteredRSS_def newExchange_def)
  then show ?thesis
    by (simp add: http_Error_new StatusInternalServerError_def)
qed

theorem fetch_error_is_500_without_rss_witness:
  "keepItem_of sampleEnv notFoundQuery = Inr (keepItem_skip [''recall''])
   \<and> Values_Has notFoundQuery ''url''
   \<and> ParseURL sampleEnv (Values_Get notFoundQuery ''url'') = Inl ''http error: 404 Not Found''
   \<and> (\<exists>x. indexHandler sampleEnv notFoundQuery newExchange = Returned x
          \<and> status (resp x) = Some 500
          \<and> body (resp x) = ''http error: 404 Not Found'' @ [CHR 0x0A])"
proof -
  have h1: "keepItem_of sampleEnv notFoundQuery = Inr (keepItem_skip [''recall''])"
    by (simp add: keepItem_of_def notFoundQuery_def Values_Has_def)
  have h2: "Values_Has notFoundQuery ''url''" by (simp add: Values_Has_def notFoundQuery_def)
  have h3: "ParseURL sampleEnv (Values_Get notFoundQuery ''url'') = Inl ''http error: 404 Not Found''"
    by (simp add: sampleEnv_def sampleParseURL_def Values_Get_def notFoundQuery_def)
  from fetch_error_is_500_without_rss [OF h1 h2 h3] h1 h2 h3 show ?thesis by blast
qed

lemma kept_all: "(\<And>title. keepItem title) \<Longrightarrow> kept keepItem items = items"
  by (simp add: kept_def)

lemma indexHandler_serves:
  assumes "keepItem_of env query = Inr keepItem"
    and "Values_Has query ''url''"
    and "ParseURL env (Values_Get query ''url'') = Inr feed"
    and "filteredFeed (time_Now env) keepItem feed = Inr out"
  shows "indexHandler env query newExchange =
           Returned \<lparr> resp = (case WriteRss env out of
                                 (bytes, None) \<Rightarrow> Write bytes newResponse
                               | (bytes, Some err) \<Rightarrow>
                                   http_Error (Write bytes newResponse) err StatusInternalServerError),
                      fetched = [Values_Get query ''url''] \<rparr>"
proof -
  from assms(2) have "Values_len query \<noteq> 0" by (rule Values_Has_len)
  with assms show ?thesis
    by (cases "WriteRss env out")
       (auto simp: indexHandler_def writeFilteredRSS_def newExchange_def split: option.splits)
qed

lemma body_Write_new: "body (Write bytes newResponse) = bytes"
  by (simp add: Write_def WriteHeader_def newResponse_def Let_def)

lemma body_http_Error: "body (http_Error w err code) = body w @ err @ [CHR 0x0A]"
  by (simp add: http_Error_def Write_def WriteHeader_def Let_def)

lemma status_Write_new: "status (Write bytes newResponse) = Some 200"
  by (simp add: Write_def WriteHeader_def newResponse_def Let_def)

lemma status_http_Error_sent: "status w = Some c \<Longrightarrow> status (http_Error w err code) = Some c"
  by (simp add: http_Error_def Write_def WriteHeader_def Let_def)

text \<open>
  With the empty pattern, when the parser compiles it to an expression that matches
  the empty string at the start of every text, the predicate keeps every title; and
  a predicate that keeps every title copies every item, where the loop finishes.
\<close>

lemma empty_regex_keeps_every_title:
  assumes "Values_Has query ''re''" and "Values_Get query ''re'' = []"
    and "regexp_Compile env [] = Inr regex" and "\<And>title. regex title 0 0"
  shows "keepItem_of env query = Inr (MatchString regex) \<and> MatchString regex title"
proof -
  have "MatchString regex title" unfolding MatchString_iff using assms(4) by blast
  with assms(1-3) show ?thesis by (simp add: keepItem_of_def)
qed

lemma keep_all_output_copies_all_items:
  assumes "\<And>title. keepItem title" and "filteredFeed now keepItem feed = Inr out"
  shows "map fdItem_Title (fdFeed_Items out) = map gfItem_Title (gfFeed_Items feed)
     \<and> map fdItem_Link (fdFeed_Items out)
         = map (\<lambda>item. Some \<lparr> fdLink_Href = gfItem_Link item \<rparr>) (gfFeed_Items feed)
     \<and> map fdItem_Description (fdFeed_Items out) = map gfItem_Description (gfFeed_Items feed)
     \<and> map fdItem_Author (fdFeed_Items out)
         = map (\<lambda>item. map_option copyAuthor (gfItem_Author item)) (gfFeed_Items feed)
     \<and> map (\<lambda>n. Some (fdItem_Created n)) (fdFeed_Items out)
         = map gfItem_PublishedParsed (gfFeed_Items feed)
     \<and> length (fdFeed_Items out) = length (gfFeed_Items feed)"
proof -
  have "kept keepItem (gfFeed_Items feed) = gfFeed_Items feed"
    using assms(1) by (rule kept_all)
  with output_items_copy_kept_items [OF assms(2)] show ?thesis by simp
qed

section \<open>Kept items that lack a date or an author\<close>

text \<open>
  For every environment and request: when a kept item of the parsed feed lacks its
  author or its date, the handler panics after the fetch, with nothing written; so
  it does with the empty pattern when any item of the feed lacks one.
\<close>

lemma indexHandler_panics:
  assumes "keepItem_of env query = Inr keepItem"
    and "Values_Has query ''url''"
    and "ParseURL env (Values_Get query ''url'') = Inr feed"
    and "\<not> list_all complete (kept keepItem (gfFeed_Items feed))"
  shows "indexHandler env query newExchange
           = Panicked NilPointerDereference
               \<lparr> resp = newResponse, fetched = [Values_Get query ''url''] \<rparr>"
proof -
  from assms(4) have "filteredFeed (time_Now env) keepItem feed = Inl NilPointerDereference"
    by (simp add: filteredFeed_panics_iff)
  with assms(3) have "writeFilteredRSS env newExchange keepItem (Values_Get query ''url'')
      = Panicked NilPointerDereference \<lparr> resp = newResponse, fetched = [Values_Get query ''url''] \<rparr>"
    by (simp add: writeFilteredRSS_def newExchange_def)
  moreover from assms(2) have "Values_len query \<noteq> 0" by (rule Values_Has_len)
  ultimately show ?thesis using assms(1,2) by (simp add: indexHandler_def)
qed

lemma empty_regex_panics_on_incomplete_item:
  assumes "Values_Has query ''re''" and "Values_Get query ''re'' = []"
    and "regexp_Compile env [] = Inr regex" and "\<And>title. regex title 0 0"
    and "Values_Has query ''url''"
    and "ParseURL env (Values_Get query ''url'') = Inr feed"
    and "\<not> list_all complete (gfFeed_Items feed)"
  shows "indexHandler env query newExchange
           = Panicked NilPointerDereference
               \<lparr> resp = newResponse, fetched = [Values_Get query ''url''] \<rparr>"
proof -
  from empty_regex_keeps_every_title [OF assms(1-4)]
  have k: "keepItem_of env query = Inr (MatchString regex)"
    and all: "\<And>title. MatchString regex title"
    by simp_all
  have "kept (MatchString regex) (gfFeed_Items feed) = gfFeed_Items feed"
    using all by (rule kept_all)
  with assms(7) have "\<not> list_all complete (kept (MatchString regex) (gfFeed_Items feed))"
    by simp
  with k assms(5,6) show ?thesis by (rule indexHandler_panics)
qed


text \<open>
  Claim C10 says that with the empty pattern every title is kept, so that for every
  source feed the output items are all the source items. For the feed whose only item
  has no author, the empty pattern keeps that item, line 108 dereferences the nil
  \<open>Author\<close>, and the handler panics after the fetch without having written anything:
  there is no output item list.
\<close>

theorem empty_regex_panics_on_authorless_item:
  "Values_Get emptyRegexAnonymousQuery ''re'' = []
   \<and> kept (MatchString emptyMatch) (gfFeed_Items anonymousFeed) = gfFeed_Items anonymousFeed
   \<and> gfFeed_Items anonymousFeed = [(sampleItem ''Alpha launch'' 1)\<lparr> gfItem_Author := None \<rparr>]
   \<and> indexHandler sampleEnv emptyRegexAnonymousQuery newExchange
     = Panicked NilPointerDereference
         \<lparr> resp = newResponse, fetched = [''http://example.org/anonymous''] \<rparr>"
proof -
  have re: "Values_Has emptyRegexAnonymousQuery ''re''" "Values_Get emptyRegexAnonymousQuery ''re'' = []"
    by (simp_all add: Values_Has_def Values_Get_def emptyRegexAnonymousQuery_def)
  have c: "regexp_Compile sampleEnv [] = Inr emptyMatch" by (simp add: sampleEnv_def sampleCompile_def)
  have e: "emptyMatch title 0 0" for title by (simp add: emptyMatch_def)
  from empty_regex_keeps_every_title [OF re c e]
  have k: "keepItem_of sampleEnv emptyRegexAnonymousQuery = Inr (MatchString emptyMatch)"
    and all: "\<And>title. MatchString emptyMatch title"
    by simp_all
  have all_kept: "kept (MatchString emptyMatch) (gfFeed_Items anonymousFeed) = gfFeed_Items anonymousFeed"
    using all by (rule kept_all)
  have items: "gfFeed_Items anonymousFeed = [(sampleItem ''Alpha launch'' 1)\<lparr> gfItem_Author := None \<rparr>]"
    by (simp add: anonymousFeed_def)
  have "\<not> list_all complete (gfFeed_Items anonymousFeed)"
    by (simp add: items complete_def sampleItem_def)
  then have "\<not> list_all complete (kept (MatchString emptyMatch) (gfFeed_Items anonymousFeed))"
    by (simp add: all_kept)
  then have "filteredFeed (time_Now sampleEnv) (MatchString emptyMatch) anonymousFeed
               = Inl NilPointerDereference"
    by (simp add: filteredFeed_panics_iff)
  then have "writeFilteredRSS sampleEnv newExchange (MatchString emptyMatch) ''http://example.org/anonymous''
      = Panicked NilPointerDereference \<lparr> resp = newResponse, fetched = [''http://example.org/anonymous''] \<rparr>"
    by (simp add: writeFilteredRSS_def sampleEnv_def sampleParseURL_def newExchange_def)
  with k have "indexHandler sampleEnv emptyRegexAnonymousQuery newExchange
     = Panicked NilPointerDereference
         \<lparr> resp = newResponse, fetched = [''http://example.org/anonymous''] \<rparr>"
    by (simp add: indexHandler_def emptyRegexAnonymousQuery_def Values_len_def Values_Has_def
          Values_Get_def)
  with re(2) all_kept items show ?thesis by (intro conjI)
qed

text \<open>
  Claim C2 says that a kept item without a parsed publication date makes the transform
  fail with an error that the handler reports as a 500. The code dereferences the nil
  \<open>PublishedParsed\<close> at line 109 instead: for the feed with an undated \<open>Beta recall\<close>
  and the skip word \<open>launch\<close> the handler panics after the fetch, having written
  neither a status nor a body. No error value reaches line 81, and \<open>http.Error\<close> is
  never called.
\<close>

theorem undated_kept_item_panics:
  "indexHandler sampleEnv undatedQuery newExchange
     = Panicked NilPointerDereference
         \<lparr> resp = newResponse, fetched = [''http://example.org/undated''] \<rparr>
   \<and> status newResponse = None \<and> body newResponse = []"
proof -
  have k: "keepItem_of sampleEnv undatedQuery = Inr (keepItem_skip [''launch''])"
    by (simp add: keepItem_of_def undatedQuery_def Values_Has_def)
  have keep: "\<not> keepItem_skip [''launch''] ''Alpha launch''" "keepItem_skip [''launch''] ''Beta recall''"
    by (simp_all add: keepItem_skip_def Fields_examples)
  have "filteredFeed 100 (keepItem_skip [''launch'']) undatedFeed = Inl NilPointerDereference"
    by (simp add: filteredFeed_def undatedFeed_def sampleFeed_def sampleItem_def keep newItem_def)
  then have "writeFilteredRSS sampleEnv newExchange (keepItem_skip [''launch'']) ''http://example.org/undated''
      = Panicked NilPointerDereference \<lparr> resp = newResponse, fetched = [''http://example.org/undated''] \<rparr>"
    by (simp add: writeFilteredRSS_def sampleEnv_def sampleParseURL_def newExchange_def)
  with k show ?thesis
    by (simp add: indexHandler_def undatedQuery_def Values_len_def Values_Has_def Values_Get_def
          newResponse_def)
qed

text \<open>
  Claim C3 says that a kept item is converted also when its author is absent. The code
  dereferences the nil \<open>Author\<close> at line 108 (the feed's own author is checked for nil
  at line 98, the item's is not): the conversion of an item without author panics, and
  so does the handler for a feed that holds one.
\<close>

theorem authorless_kept_item_panics:
  "newItem ((sampleItem ''Alpha launch'' 1)\<lparr> gfItem_Author := None \<rparr>) = Inl NilPointerDereference
   \<and> indexHandler sampleEnv anonymousQuery newExchange
     = Panicked NilPointerDereference
         \<lparr> resp = newResponse, fetched = [''http://example.org/anonymous''] \<rparr>"
proof -
  have k: "keepItem_of sampleEnv anonymousQuery = Inr (keepItem_skip [''recall''])"
    by (simp add: keepItem_of_def anonymousQuery_def Values_Has_def)
  have keep: "keepItem_skip [''recall''] ''Alpha launch''"
    by (simp add: keepItem_skip_def Fields_examples)
  have new: "newItem ((sampleItem ''Alpha launch'' 1)\<lparr> gfItem_Author := None \<rparr>) = Inl NilPointerDereference"
    by (simp add: newItem_def sampleItem_def)
  have "filteredFeed 100 (keepItem_skip [''recall'']) anonymousFeed = Inl NilPointerDereference"
    by (simp add: filteredFeed_def anonymousFeed_def sampleFeed_def sampleItem_def keep newItem_def)
  then have "writeFilteredRSS sampleEnv newExchange (keepItem_skip [''recall'']) ''http://example.org/anonymous''
      = Panicked NilPointerDereference \<lparr> resp = newResponse, fetched = [''http://example.org/anonymous''] \<rparr>"
    by (simp add: writeFilteredRSS_def sampleEnv_def sampleParseURL_def newExchange_def)
  with k new show ?thesis
    by (simp add: indexHandler_def anonymousQuery_def Values_len_def Values_Has_def Values_Get_def)
qed

section \<open>The status report\<close>

lemma unat_MB: "unat (x div 1024 div 1024 :: 64 word) = unat x div 1048576"
  by (simp add: unat_div div_mult2_eq [symmetric])

lemma decimal_small: "n < 10 \<Longrightarrow> decimal n = [''0123456789'' ! n]"
  by (simp add: decimal.simps)

lemma decimal_examples:
  "decimal 1 = ''1''" "decimal 2 = ''2''" "decimal 3 = ''3''" "decimal 4 = ''4''"
  "decimal 12 = ''12''" "decimal 50 = ''50''" "decimal 1024 = ''1024''" "decimal 2048 = ''2048''"
  "decimal 0 = ''0''" "decimal 5 = ''5''" "decimal (Suc 0) = ''1''"
  by (simp_all add: decimal.simps)

text \<open>
  Claim C9, amended. Whenever \<open>mem.VirtualMemory\<close> gives a reading, the handler
  writes the report with three memory numbers under the label MB: the process memory
  is \<open>Alloc\<close> divided by 1024 twice (megabytes), while the host's used and total
  memory are each divided by 1024 three times, that is their megabytes divided by 1024
  once more (lines 138 to 140: the statistics of the host are off by 1024).
\<close>

theorem status_memory_units:
  assumes "mem_VirtualMemory r = Some sysMem"
  shows "statusHandler fl r newResponse =
           Returned (Write
             (Sprintf_statusPattern
                (verb_2f fl (case cpu_Percent r of [] \<Rightarrow> float_zero fl | u # _ \<Rightarrow> u))
                (decimal (unat (MemStats_Alloc r) div 1048576))
                (decimal (unat (vm_Used sysMem) div 1073741824))
                (decimal (unat (vm_Total sysMem) div 1073741824))
                (verb_0f fl (vm_UsedPercent sysMem))
                (verb_d (NumGoroutine r)))
             newResponse)
         \<and> unat (megabytes (MemStats_Alloc r)) = unat (MemStats_Alloc r) div 1048576
         \<and> unat (megabytes (vm_Used sysMem)) div 1024 = unat (vm_Used sysMem) div 1073741824
         \<and> unat (megabytes (vm_Total sysMem)) div 1024 = unat (vm_Total sysMem) div 1073741824"
  using assms
  by (simp add: statusHandler_def megabytes_def unat_div div_mult2_eq [symmetric])

text \<open>
  Claim C9 as stated fails: on a host with 2 GiB of memory, 1 GiB of it used, the
  report reads \<open>3 / 1 / 2 MB\<close>, where the byte counts divided by 1024 twice are
  1024 and 2048.
\<close>

theorem status_memory_counterexample:
  "statusHandler sampleFloats sampleReadings newResponse
     = Returned (Write (Sprintf_statusPattern ''12.50'' ''3'' ''1'' ''2'' ''50'' ''4'') newResponse)
   \<and> decimal (unat (megabytes 1073741824)) = ''1024''
   \<and> decimal (unat (megabytes 2147483648)) = ''2048''
   \<and> statusHandler sampleFloats sampleReadings newResponse
     \<noteq> Returned (Write (Sprintf_statusPattern ''12.50''
           (decimal (unat (megabytes 3145728)))
           (decimal (unat (megabytes 1073741824)))
           (decimal (unat (megabytes 2147483648))) ''50'' ''4'') newResponse)"
proof -
  have a: "unat (megabytes 3145728) = 3" "unat (megabytes 1073741824) = 1024"
    "unat (megabytes 2147483648) = 2048"
    by (simp_all add: megabytes_def unat_MB)
  have run: "statusHandler sampleFloats sampleReadings newResponse
     = Returned (Write (Sprintf_statusPattern ''12.50'' ''3'' ''1'' ''2'' ''50'' ''4'') newResponse)"
    by (simp add: statusHandler_def sampleFloats_def sampleReadings_def unat_div verb_d_def
          decimal_examples)
  have "body (Write (Sprintf_statusPattern ''12.50'' ''3'' ''1'' ''2'' ''50'' ''4'') newResponse)
      \<noteq> body (Write (Sprintf_statusPattern ''12.50'' ''3'' ''1024'' ''2048'' ''50'' ''4'') newResponse)"
    by (simp add: body_Write_new Sprintf_statusPattern_def)
  then have "Write (Sprintf_statusPattern ''12.50'' ''3'' ''1'' ''2'' ''50'' ''4'') newResponse
      \<noteq> Write (Sprintf_statusPattern ''12.50'' ''3'' ''1024'' ''2048'' ''50'' ''4'') newResponse"
    by metis
  with run show ?thesis unfolding a by (simp add: decimal_examples)
qed

theorem status_memory_units_witness:
  "mem_VirtualMemory sampleReadings
     = Some \<lparr> vm_Total = 2147483648, vm_Used = 1073741824, vm_UsedPercent = 5000 \<rparr>
   \<and> statusHandler sampleFloats sampleReadings newResponse
     = Returned (Write (Sprintf_statusPattern ''12.50'' ''3'' ''1'' ''2'' ''50'' ''4'') newResponse)"
proof -
  have h: "mem_VirtualMemory sampleReadings
     = Some \<lparr> vm_Total = 2147483648, vm_Used = 1073741824, vm_UsedPercent = 5000 \<rparr>"
    by (simp add: sampleReadings_def)
  from status_memory_units [OF h, of sampleFloats] h show ?thesis
    by (simp add: sampleFloats_def sampleReadings_def verb_d_def decimal_examples)
qed

section \<open>The scenarios of the specification\<close>

text \<open>
  The three-item feed with the skip word \<open>recall\<close>, and with the pattern \<open>^Beta\<close>:
  the first keeps \<open>Alpha launch\<close> and \<open>Gamma update\<close> in that order, the second
  only \<open>Beta recall\<close>.
\<close>

lemma scenario_skip_recall:
  "indexHandler sampleEnv skipQuery newExchange =
     Returned \<lparr> resp = Write ''<rss><item>Alpha launch</item><item>Gamma update</item></rss>'' newResponse,
                fetched = [''http://example.org/feed''] \<rparr>"
proof -
  have k: "keepItem_of sampleEnv skipQuery = Inr (keepItem_skip [''recall''])"
    by (simp add: keepItem_of_def skipQuery_def Values_Has_def)
  have keep: "keepItem_skip [''recall''] ''Alpha launch''" "\<not> keepItem_skip [''recall''] ''Beta recall''"
    "keepItem_skip [''recall''] ''Gamma update''"
    by (simp_all add: keepItem_skip_def Fields_def spaceWidth_def whiteSpace_def)
  have "\<exists>out. filteredFeed 100 (keepItem_skip [''recall'']) sampleFeed = Inr out
          \<and> map fdItem_Title (fdFeed_Items out) = [''Alpha launch'', ''Gamma update'']"
    by (simp add: filteredFeed_def sampleFeed_def sampleItem_def keep newItem_def)
  then obtain out where out: "filteredFeed (time_Now sampleEnv) (keepItem_skip [''recall'']) sampleFeed = Inr out"
    and titles: "map fdItem_Title (fdFeed_Items out) = [''Alpha launch'', ''Gamma update'']"
    by (auto simp: sampleEnv_def)
  have url: "Values_Has skipQuery ''url''" "ParseURL sampleEnv (Values_Get skipQuery ''url'') = Inr sampleFeed"
    by (simp_all add: Values_Has_def Values_Get_def skipQuery_def sampleEnv_def sampleParseURL_def)
  have ser: "WriteRss sampleEnv out = (''<rss><item>Alpha launch</item><item>Gamma update</item></rss>'', None)"
    using titles by (auto simp: sampleEnv_def sampleWriteRss_def map_eq_Cons_conv)
  from indexHandler_serves [OF k url out] ser show ?thesis
    by (simp add: Values_Get_def skipQuery_def)
qed

lemma scenario_anchored_regex:
  "indexHandler sampleEnv anchoredQuery newExchange =
     Returned \<lparr> resp = Write ''<rss><item>Beta recall</item></rss>'' newResponse,
                fetched = [''http://example.org/feed''] \<rparr>"
proof -
  let ?k = "MatchString (beginText_then (literal ''Beta''))"
  have k: "keepItem_of sampleEnv anchoredQuery = Inr ?k"
    by (simp add: keepItem_of_def anchoredQuery_def Values_Has_def Values_Get_def
          sampleEnv_def sampleCompile_def)
  have keep: "\<not> ?k ''Alpha launch''" "?k ''Beta recall''" "\<not> ?k ''Gamma update''"
    by (simp_all add: MatchString_def beginText_then_def literal_def)
  have "\<exists>out. filteredFeed 100 ?k sampleFeed = Inr out
          \<and> map fdItem_Title (fdFeed_Items out) = [''Beta recall'']"
    by (simp add: filteredFeed_def sampleFeed_def sampleItem_def keep newItem_def)
  then obtain out where out: "filteredFeed (time_Now sampleEnv) ?k sampleFeed = Inr out"
    and titles: "map fdItem_Title (fdFeed_Items out) = [''Beta recall'']"
    by (auto simp: sampleEnv_def)
  have url: "Values_Has anchoredQuery ''url''"
    "ParseURL sampleEnv (Values_Get anchoredQuery ''url'') = Inr sampleFeed"
    by (simp_all add: Values_Has_def Values_Get_def anchoredQuery_def sampleEnv_def sampleParseURL_def)
  have ser: "WriteRss sampleEnv out = (''<rss><item>Beta recall</item></rss>'', None)"
    using titles by (auto simp: sampleEnv_def sampleWriteRss_def map_eq_Cons_conv)
  from indexHandler_serves [OF k url out] ser show ?thesis
    by (simp add: Values_Get_def anchoredQuery_def)
qed

end
